theory Spec2Isabelle
  imports Complex_Main "HOL-Library.AList" "HOL-Library.Word"
begin

section \<open>The windowed sum: \<open>PartialsInterval\<close> (src/pool/partials.py, lines 16-41)\<close>

text \<open>
  A partial is a pair \<open>(timestamp, difficulty)\<close> of Python integers. The object has four
  fields; \<open>additions\<close> is the iterator \<open>itertools.count()\<close>, whose state is the value the
  next call of \<open>next\<close> returns (it starts at 0).
\<close>

type_synonym partial = "int \<times> int"

record PartialsInterval =
  partials :: "partial list"
  points :: int
  additions :: nat
  keep_interval :: int

definition PartialsInterval_init :: "int \<Rightarrow> PartialsInterval" where
  "PartialsInterval_init k =
     \<lparr>partials = [], points = 0, additions = 0, keep_interval = k\<rparr>"

text \<open>
  The \<open>while self.partials:\<close> loop of \<open>add\<close> (lines 33-40): it looks at the head of the
  list, deletes it and subtracts its difficulty while its timestamp is below \<open>drop_time\<close>,
  and leaves at the first head that is not. The state of the loop is the list and the
  running total.
\<close>

fun drop_old :: "int \<Rightarrow> partial list \<Rightarrow> int \<Rightarrow> partial list \<times> int" where
  "drop_old drop_time [] pts = ([], pts)"
| "drop_old drop_time ((timestamp, difficulty) # rest) pts =
     (if timestamp < drop_time then drop_old drop_time rest (pts - difficulty)
      else ((timestamp, difficulty) # rest, pts))"

text \<open>
  \<open>add\<close>: \<open>now\<close> is the value \<open>int(time.time())\<close> that the call reads from the clock (it is
  read only when \<open>remove\<close> holds). The result is the updated object and the value of
  \<open>next(self.additions)\<close>.
\<close>

definition PartialsInterval_add ::
  "int \<Rightarrow> PartialsInterval \<Rightarrow> int \<Rightarrow> int \<Rightarrow> bool \<Rightarrow> PartialsInterval \<times> nat" where
  "PartialsInterval_add now self timestamp difficulty remove =
     (let ps = partials self @ [(timestamp, difficulty)];
          pts = points self + difficulty;
          (ps', pts') = (if remove then drop_old (now - keep_interval self) ps pts
                         else (ps, pts))
      in (self\<lparr>partials := ps', points := pts', additions := Suc (additions self)\<rparr>,
          additions self))"

text \<open>
  A call of \<open>add\<close> is described by the clock reading, the timestamp, the difficulty and the
  \<open>remove\<close> flag. \<open>add_all\<close> runs a sequence of calls on one object and collects the
  returned numbers.
\<close>

type_synonym add_call = "int \<times> int \<times> int \<times> bool"

fun add_all :: "PartialsInterval \<Rightarrow> add_call list \<Rightarrow> PartialsInterval \<times> nat list" where
  "add_all self [] = (self, [])"
| "add_all self ((now, timestamp, difficulty, remove) # calls) =
     (let (self', n) = PartialsInterval_add now self timestamp difficulty remove;
          (self'', ns) = add_all self' calls
      in (self'', n # ns))"

definition weight_sum :: "partial list \<Rightarrow> int" where
  "weight_sum ps = sum_list (map snd ps)"

definition call_timestamp :: "add_call \<Rightarrow> int" where
  "call_timestamp c = fst (snd c)"

text \<open>
  The parts of a call of \<open>add\<close>, and the partials of a list that are not older than
  \<open>drop_time\<close>.
\<close>

definition call_now :: "add_call \<Rightarrow> int" where
  "call_now c = fst c"

definition call_remove :: "add_call \<Rightarrow> bool" where
  "call_remove c = snd (snd (snd c))"

definition call_partial :: "add_call \<Rightarrow> partial" where
  "call_partial c = (fst (snd c), fst (snd (snd c)))"

definition recent :: "int \<Rightarrow> partial list \<Rightarrow> partial list" where
  "recent drop_time ps = filter (\<lambda>p. drop_time \<le> fst p) ps"

text \<open>The list is in chronological order (the assumption written at line 39).\<close>

definition chronological :: "partial list \<Rightarrow> bool" where
  "chronological ps = sorted (map fst ps)"

section \<open>The cache: \<open>PartialsCache\<close> (lines 44-101)\<close>

text \<open>
  What the code can raise. \<open>ZeroDivisionError\<close> is the float division of line 87,
  \<open>DivisionByZero\<close> and \<open>InvalidOperation\<close> are the signals of \<open>decimal\<close> that the default
  context traps (line 91), \<open>ValueError\<close> is the range check of \<open>uint64\<close>.
\<close>

datatype error = ZeroDivisionError | DivisionByZero | InvalidOperation | ValueError

text \<open>
  The two configuration dictionaries, with the keys the code reads:
  \<open>pool_config['time_target']\<close>, \<open>pool_config.get('pplns_interval', 86400)\<close> and
  \<open>config['full_node']['selected_network']\<close>.
\<close>

record pool_config =
  time_target :: int
  pplns_interval :: "int option"

record config =
  selected_network :: string

text \<open>
  \<open>PartialsCache\<close> is a \<open>dict\<close> from launcher id (a hex string) to \<open>PartialsInterval\<close>,
  with the field \<open>all\<close> beside it. A Python \<open>dict\<close> keeps its keys in insertion order and
  the payout pass iterates over it, so the dictionary is an association list:
  \<open>AList.update\<close> replaces the value of a key in place and appends a new key at the end,
  as \<open>self[k] = v\<close> does. The lock has no effect on a sequential run and is left out.
\<close>

record PartialsCache =
  entries :: "(string \<times> PartialsInterval) list"
  all :: PartialsInterval
  cache_keep_interval :: int
  cache_config :: config
  cache_pool_config :: pool_config

definition PartialsCache_init :: "config \<Rightarrow> pool_config \<Rightarrow> int \<Rightarrow> PartialsCache" where
  "PartialsCache_init cfg pcfg k =
     \<lparr>entries = [], all = PartialsInterval_init k, cache_keep_interval = k,
      cache_config = cfg, cache_pool_config = pcfg\<rparr>"

definition setitem :: "PartialsCache \<Rightarrow> string \<Rightarrow> PartialsInterval \<Rightarrow> PartialsCache" where
  "setitem self launcher_id interval = self\<lparr>entries := AList.update launcher_id interval (entries self)\<rparr>"

text \<open>
  \<open>self[launcher_id]\<close>: a key that is absent goes through \<open>__missing__\<close> (lines 58-61),
  which stores a fresh object and returns it.
\<close>

definition getitem :: "PartialsCache \<Rightarrow> string \<Rightarrow> PartialsCache \<times> PartialsInterval" where
  "getitem self launcher_id =
     (case map_of (entries self) launcher_id of
        Some interval \<Rightarrow> (self, interval)
      | None \<Rightarrow>
          (let interval = PartialsInterval_init (cache_keep_interval self)
           in (setitem self launcher_id interval, interval)))"

text \<open>
  Lines 70-75 of \<open>PartialsCache.add\<close>: the part that changes the cache. Each of the two
  \<open>PartialsInterval.add\<close> calls reads the clock itself: \<open>now1\<close> is the reading of the
  participant's call, \<open>now2\<close> the reading of the call on \<open>all\<close>. The result is the cache
  and the number \<open>additions\<close> of line 74.
\<close>

definition add_both ::
  "int \<Rightarrow> int \<Rightarrow> PartialsCache \<Rightarrow> string \<Rightarrow> int \<Rightarrow> int \<Rightarrow> PartialsCache \<times> nat" where
  "add_both now1 now2 self launcher_id timestamp difficulty =
     (let self1 = (if launcher_id \<notin> fst ` set (entries self)
                   then setitem self launcher_id (PartialsInterval_init (cache_keep_interval self))
                   else self);
          (self2, interval) = getitem self1 launcher_id;
          (interval', n) = PartialsInterval_add now1 interval timestamp difficulty True;
          self3 = setitem self2 launcher_id interval';
          (all', m) = PartialsInterval_add now2 (all self3) timestamp difficulty True
      in (self3\<lparr>all := all'\<rparr>, n))"

text \<open>
  Lines 78-85: the points of the report are the participant's total when its
  \<open>keep_interval\<close> is the time target, and otherwise the sum over the held partials
  that are not older than \<open>timestamp - time_target\<close>.
\<close>

definition report_points :: "PartialsCache \<Rightarrow> PartialsInterval \<Rightarrow> int \<Rightarrow> int" where
  "report_points self interval timestamp =
     (if keep_interval interval = time_target (cache_pool_config self) then points interval
      else (let last_time_target = timestamp - time_target (cache_pool_config self)
            in sum_list (map snd (filter (\<lambda>x. fst x \<ge> last_time_target) (partials interval)))))"

text \<open>
  Lines 87-89 compute \<open>estimated_size\<close> in floating point. Floating point is not modelled:
  the computation is a parameter \<open>est\<close> of the model, a function of the points, the time
  target and the test \<open>selected_network == 'testnet7'\<close> that returns the integer or raises.
  Every theorem about \<open>add\<close> below holds for every such function.
  \<open>estimated_size_exact\<close> is the same formula in exact arithmetic
  (\<open>1.088e-15 = 1088 / 10^18\<close>, \<open>int\<close> truncates towards zero); it is used for runs on
  concrete inputs only, where it stands for "the float computation succeeds".
\<close>

type_synonym estimator = "int \<Rightarrow> int \<Rightarrow> bool \<Rightarrow> error + int"

definition trunc_div :: "int \<Rightarrow> int \<Rightarrow> int" where
  "trunc_div a b = sgn a * sgn b * (\<bar>a\<bar> div \<bar>b\<bar>)"

definition estimated_size_exact :: estimator where
  "estimated_size_exact pts tt testnet7 =
     (if tt = 0 then Inl ZeroDivisionError
      else (let estimated_size = trunc_div (pts * 10 ^ 18) (tt * 1088)
            in Inr (if testnet7 then trunc_div estimated_size 14680000 else estimated_size)))"

text \<open>
  Line 91, \<open>Decimal(points) / Decimal(self.all.points)\<close>. With the default context a zero
  divisor raises: \<open>InvalidOperation\<close> for 0/0 and \<open>DivisionByZero\<close> otherwise. The
  quotient is kept as a rational; the rounding to 28 digits is not modelled.
\<close>

definition decimal_div :: "int \<Rightarrow> int \<Rightarrow> error + rat" where
  "decimal_div a b =
     (if b = 0 then (if a = 0 then Inl InvalidOperation else Inl DivisionByZero)
      else Inr (of_int a / of_int b))"

text \<open>
  Modelled from the spec: the durable store (\<open>AbstractPoolStore\<close>, in \<open>pool/store\<close>, is not
  among the sources). The specification gives it the calls
  \<open>addEvent(participantKey, timestamp, weight, optionalErrorReason)\<close> and
  \<open>updateDerivedMetrics(participantKey, estimatedRate, points, share)\<close>. The model
  records the calls made, in order, with their arguments; the two queries
  (\<open>get_recent_partials\<close>, \<open>get_launcher_id_and_payout_instructions\<close>) are given to the
  functions that make them as the value the store returns.
\<close>

type_synonym bytes32 = "8 word list"

record store =
  added_partials :: "(bytes32 \<times> int \<times> int \<times> string option) list"
  updated_sizes :: "(string \<times> int \<times> int \<times> rat) list"

definition store_add_partial ::
  "store \<Rightarrow> bytes32 \<Rightarrow> int \<Rightarrow> int \<Rightarrow> string option \<Rightarrow> store" where
  "store_add_partial s launcher_id timestamp difficulty err =
     s\<lparr>added_partials := added_partials s @ [(launcher_id, timestamp, difficulty, err)]\<rparr>"

definition store_update_estimated_size_and_pplns ::
  "store \<Rightarrow> string \<Rightarrow> int \<Rightarrow> int \<Rightarrow> rat \<Rightarrow> store" where
  "store_update_estimated_size_and_pplns s launcher_id estimated_size pts share_pplns =
     s\<lparr>updated_sizes := updated_sizes s @ [(launcher_id, estimated_size, pts, share_pplns)]\<rparr>"

text \<open>
  Lines 77-101: the report made when \<open>additions % 5 == 0\<close>. An exception leaves the
  function at the line that raises it; the store is then as it was. The log line has no
  effect on the state.
\<close>

definition report ::
  "estimator \<Rightarrow> PartialsCache \<Rightarrow> store \<Rightarrow> string \<Rightarrow> int \<Rightarrow> (PartialsCache \<times> store) \<times> (error + unit)" where
  "report est self s launcher_id timestamp =
     (let (self1, interval) = getitem self launcher_id;
          pts = report_points self1 interval timestamp
      in case est pts (time_target (cache_pool_config self1))
                (selected_network (cache_config self1) = ''testnet7'') of
           Inl e \<Rightarrow> ((self1, s), Inl e)
         | Inr estimated_size \<Rightarrow>
             (case decimal_div pts (points (all self1)) of
                Inl e \<Rightarrow> ((self1, s), Inl e)
              | Inr share_pplns \<Rightarrow>
                  ((self1, store_update_estimated_size_and_pplns s launcher_id
                              estimated_size pts share_pplns), Inr ())))"

text \<open>
  \<open>PartialsCache.add\<close>. The state is the cache and the store; the second component of the
  result is \<open>Inr ()\<close> when the call returns and \<open>Inl e\<close> when it raises \<open>e\<close>. The changes
  made before an exception stay.
\<close>

definition PartialsCache_add ::
  "estimator \<Rightarrow> int \<Rightarrow> int \<Rightarrow> PartialsCache \<times> store \<Rightarrow> string \<Rightarrow> int \<Rightarrow> int
     \<Rightarrow> (PartialsCache \<times> store) \<times> (error + unit)" where
  "PartialsCache_add est now1 now2 state launcher_id timestamp difficulty =
     (let (self, s) = state;
          (self', n) = add_both now1 now2 self launcher_id timestamp difficulty
      in if n mod 5 = 0 then report est self' s launcher_id timestamp
         else ((self', s), Inr ()))"

section \<open>The tracker: \<open>Partials\<close> (lines 104-162)\<close>

record Partials =
  store :: store
  cache :: PartialsCache

definition Partials_init :: "store \<Rightarrow> config \<Rightarrow> pool_config \<Rightarrow> Partials" where
  "Partials_init s cfg pcfg =
     \<lparr>store = s,
      cache = PartialsCache_init cfg pcfg
                (case pplns_interval pcfg of None \<Rightarrow> 86400 | Some k \<Rightarrow> k)\<rparr>"

text \<open>
  \<open>load_from_store\<close>: \<open>rows\<close> is what \<open>store.get_recent_partials(start_time)\<close> returns.
  The adds are made with \<open>remove=False\<close>, which does not read the clock.
\<close>

fun load_rows :: "PartialsCache \<Rightarrow> (string \<times> int \<times> int) list \<Rightarrow> PartialsCache" where
  "load_rows c [] = c"
| "load_rows c ((lid, t, d) # rows) =
     (let (c1, interval) = getitem c lid;
          c2 = setitem c1 lid (fst (PartialsInterval_add 0 interval t d False));
          c3 = c2\<lparr>all := fst (PartialsInterval_add 0 (all c2) t d False)\<rparr>
      in load_rows c3 rows)"

definition Partials_load_from_store :: "Partials \<Rightarrow> (string \<times> int \<times> int) list \<Rightarrow> Partials" where
  "Partials_load_from_store self rows = self\<lparr>cache := load_rows (cache self) rows\<rparr>"

text \<open>\<open>bytes.hex()\<close>: two lower-case hexadecimal digits for each byte.\<close>

definition hex_digit :: "nat \<Rightarrow> char" where
  "hex_digit n = ''0123456789abcdef'' ! n"

definition hex :: "bytes32 \<Rightarrow> string" where
  "hex bs = concat (map (\<lambda>b. [hex_digit (unat b div 16), hex_digit (unat b mod 16)]) bs)"

text \<open>
  \<open>add_partial\<close> (lines 129-136): the store is called first, with the error; the cache is
  called only when there is none.
\<close>

definition Partials_add_partial ::
  "estimator \<Rightarrow> int \<Rightarrow> int \<Rightarrow> Partials \<Rightarrow> bytes32 \<Rightarrow> int \<Rightarrow> int \<Rightarrow> string option
     \<Rightarrow> Partials \<times> (error + unit)" where
  "Partials_add_partial est now1 now2 self launcher_id timestamp difficulty err =
     (let s = store_add_partial (store self) launcher_id timestamp difficulty err
      in case err of
           None \<Rightarrow>
             (let ((c, s'), r) =
                    PartialsCache_add est now1 now2 (cache self, s) (hex launcher_id)
                      timestamp difficulty
              in (self\<lparr>store := s', cache := c\<rparr>, r))
         | Some e \<Rightarrow> (self\<lparr>store := s\<rparr>, Inr ()))"

text \<open>
  \<open>uint64\<close> of the chia library (not part of this repository) builds an integer of 64
  bits and raises \<open>ValueError\<close> for a value that does not fit.
\<close>

definition uint64 :: "int \<Rightarrow> error + int" where
  "uint64 v = (if 0 \<le> v \<and> v < 2 ^ 64 then Inr v else Inl ValueError)"

text \<open>
  The slice \<open>xs[i:]\<close> of Python: a negative \<open>i\<close> counts from the end, and both are
  clamped to the list.
\<close>

definition slice_from :: "int \<Rightarrow> 'a list \<Rightarrow> 'a list" where
  "slice_from i xs =
     (let n = int (length xs);
          j = (if i < 0 then max (n + i) 0 else min i n)
      in drop (nat j) xs)"

fun uint64_pairs :: "partial list \<Rightarrow> error + partial list" where
  "uint64_pairs [] = Inr []"
| "uint64_pairs (x # xs) =
     (case uint64 (fst x) of
        Inl e \<Rightarrow> Inl e
      | Inr t \<Rightarrow>
          (case uint64 (snd x) of
             Inl e \<Rightarrow> Inl e
           | Inr d \<Rightarrow>
               (case uint64_pairs xs of
                  Inl e \<Rightarrow> Inl e
                | Inr ys \<Rightarrow> Inr ((t, d) # ys))))"

text \<open>
  \<open>get_recent_partials\<close> (lines 138-145). Reading \<open>self.cache[...]\<close> can store a fresh
  entry, so the tracker is returned too.
\<close>

definition Partials_get_recent_partials ::
  "Partials \<Rightarrow> bytes32 \<Rightarrow> int \<Rightarrow> Partials \<times> (error + partial list)" where
  "Partials_get_recent_partials self launcher_id number_of_partials =
     (let (c, interval) = getitem (cache self) (hex launcher_id)
      in (self\<lparr>cache := c\<rparr>,
          uint64_pairs (rev (slice_from (- number_of_partials) (partials interval)))))"

text \<open>
  \<open>get_farmer_points_and_payout_instructions\<close> (lines 147-162).
  \<open>launcher_id_and_ph\<close> is the dictionary the store returns; a value of a Python
  dictionary can be \<open>None\<close>, and \<open>.get\<close> returns \<open>None\<close> for it as for an absent key.
  The loop carries the list \<open>points_and_ph\<close> and the lines written by \<open>logger.error\<close>.
\<close>

definition dict_get :: "('k \<rightharpoonup> 'v option) \<Rightarrow> 'k \<Rightarrow> 'v option" where
  "dict_get d k = (case d k of None \<Rightarrow> None | Some v \<Rightarrow> v)"

fun payout_loop ::
  "(string \<rightharpoonup> string option) \<Rightarrow> (string \<times> PartialsInterval) list
     \<Rightarrow> (int \<times> string) list \<Rightarrow> (string \<times> int) list
     \<Rightarrow> error + ((int \<times> string) list \<times> (string \<times> int) list)" where
  "payout_loop launcher_id_and_ph [] points_and_ph logged = Inr (points_and_ph, logged)"
| "payout_loop launcher_id_and_ph ((launcher_id, points_interval) # rest) points_and_ph logged =
     (if points points_interval = 0
      then payout_loop launcher_id_and_ph rest points_and_ph logged
      else (case dict_get launcher_id_and_ph launcher_id of
              None \<Rightarrow>
                payout_loop launcher_id_and_ph rest points_and_ph
                  (logged @ [(launcher_id, points points_interval)])
            | Some ph \<Rightarrow>
                (case uint64 (points points_interval) of
                   Inl e \<Rightarrow> Inl e
                 | Inr v \<Rightarrow>
                     payout_loop launcher_id_and_ph rest (points_and_ph @ [(v, ph)]) logged)))"

definition Partials_get_farmer_points_and_payout_instructions ::
  "Partials \<Rightarrow> (string \<rightharpoonup> string option)
     \<Rightarrow> error + (((int \<times> string) list \<times> int) \<times> (string \<times> int) list)" where
  "Partials_get_farmer_points_and_payout_instructions self launcher_id_and_ph =
     (case payout_loop launcher_id_and_ph (entries (cache self)) [] [] of
        Inl e \<Rightarrow> Inl e
      | Inr (points_and_ph, logged) \<Rightarrow>
          Inr ((points_and_ph, points (all (cache self))), logged))"

section \<open>Notions used to state the properties\<close>

text \<open>
  The object that \<open>self[launcher_id]\<close> denotes: the stored one, or the fresh one that
  \<open>__missing__\<close> would make.
\<close>

definition interval_of :: "PartialsCache \<Rightarrow> string \<Rightarrow> PartialsInterval" where
  "interval_of self launcher_id =
     (case map_of (entries self) launcher_id of
        Some interval \<Rightarrow> interval
      | None \<Rightarrow> PartialsInterval_init (cache_keep_interval self))"

text \<open>
  A call of \<open>PartialsCache.add\<close> is described by the two clock readings, the launcher id,
  the timestamp and the difficulty. \<open>cache_add_all\<close> makes a sequence of calls one after
  the other; a call that raises leaves the state it has reached, and the next call goes on
  from there.
\<close>

type_synonym cache_call = "int \<times> int \<times> string \<times> int \<times> int"

definition call_key :: "cache_call \<Rightarrow> string" where
  "call_key c = fst (snd (snd c))"





fun cache_add_all ::
  "estimator \<Rightarrow> PartialsCache \<times> store \<Rightarrow> cache_call list \<Rightarrow> PartialsCache \<times> store" where
  "cache_add_all est state [] = state"
| "cache_add_all est state ((now1, now2, launcher_id, timestamp, difficulty) # calls) =
     cache_add_all est
       (fst (PartialsCache_add est now1 now2 state launcher_id timestamp difficulty)) calls"






text \<open>
  The payout pass: an entry is paid when its points are not zero and its payout
  instructions are known, and it is logged when its points are not zero and they are not.
\<close>

definition paid :: "(string \<rightharpoonup> string option) \<Rightarrow> string \<times> PartialsInterval \<Rightarrow> bool" where
  "paid ph e = (points (snd e) \<noteq> 0 \<and> dict_get ph (fst e) \<noteq> None)"

definition unpaid :: "(string \<rightharpoonup> string option) \<Rightarrow> string \<times> PartialsInterval \<Rightarrow> bool" where
  "unpaid ph e = (points (snd e) \<noteq> 0 \<and> dict_get ph (fst e) = None)"

definition fits_uint64 :: "int \<Rightarrow> bool" where
  "fits_uint64 v = (0 \<le> v \<and> v < 2 ^ 64)"

section \<open>Concrete configurations and runs\<close>

definition mainnet :: config where
  "mainnet = \<lparr>selected_network = ''mainnet''\<rparr>"

definition day_config :: pool_config where
  "day_config = \<lparr>time_target = 86400, pplns_interval = None\<rparr>"

definition empty_store :: store where
  "empty_store = \<lparr>added_partials = [], updated_sizes = []\<rparr>"

definition farmer :: bytes32 where
  "farmer = replicate 32 0"


text \<open>Three partials (1,5), (2,7), (3,9) of one farmer, added at clock reading 3.\<close>

definition three_partials :: Partials where
  "three_partials =
     fst (Partials_add_partial estimated_size_exact 3 3
       (fst (Partials_add_partial estimated_size_exact 3 3
         (fst (Partials_add_partial estimated_size_exact 3 3
            (Partials_init empty_store mainnet day_config) farmer 1 5 None))
          farmer 2 7 None))
        farmer 3 9 None)"

text \<open>Two partials of difficulty \<open>2^63\<close> of one farmer, added at clock reading 10.\<close>

definition two_large :: Partials where
  "two_large =
     fst (Partials_add_partial estimated_size_exact 10 10
       (fst (Partials_add_partial estimated_size_exact 10 10
          (Partials_init empty_store mainnet day_config) farmer 10 9223372036854775808 None))
        farmer 10 9223372036854775808 None)"

definition five_calls :: "cache_call list" where
  "five_calls = [(1, 1, ''aa'', 1, 5), (2, 2, ''aa'', 2, 5), (3, 3, ''aa'', 3, 5),
                 (4, 4, ''aa'', 4, 5), (5, 5, ''aa'', 5, 5)]"


definition example_cache :: PartialsCache where
  "example_cache =
     \<lparr>entries =
        [(''aa'', \<lparr>partials = [(1, 5)], points = 5, additions = 1, keep_interval = 100\<rparr>),
         (''bb'', \<lparr>partials = [], points = 0, additions = 1, keep_interval = 100\<rparr>),
         (''cc'', \<lparr>partials = [(2, 7)], points = 7, additions = 1, keep_interval = 100\<rparr>),
         (''dd'', \<lparr>partials = [(3, 9)], points = 9, additions = 1, keep_interval = 100\<rparr>)],
      all = \<lparr>partials = [(1, 5), (2, 7), (3, 9)], points = 21, additions = 4, keep_interval = 100\<rparr>,
      cache_keep_interval = 100,
      cache_config = \<lparr>selected_network = ''mainnet''\<rparr>,
      cache_pool_config = \<lparr>time_target = 100, pplns_interval = Some 100\<rparr>\<rparr>"

section \<open>Properties of the windowed sum\<close>

lemma weight_sum_simps [simp]:
  "weight_sum [] = 0"
  "weight_sum (p # ps) = snd p + weight_sum ps"
  "weight_sum (ps @ qs) = weight_sum ps + weight_sum qs"
  by (simp_all add: weight_sum_def)

lemma drop_old_sum:
  "drop_old c ps pts = (ps', pts') \<Longrightarrow> pts' - weight_sum ps' = pts - weight_sum ps"
  by (induction c ps pts rule: drop_old.induct) (auto split: if_splits)

lemma drop_old_dropWhile:
  "fst (drop_old c ps pts) = dropWhile (\<lambda>p. fst p < c) ps"
  by (induction c ps pts rule: drop_old.induct) auto

lemma drop_old_points:
  "snd (drop_old c ps pts) = pts - weight_sum (takeWhile (\<lambda>p. fst p < c) ps)"
  by (induction c ps pts rule: drop_old.induct) auto

lemma add_partials:
  "partials (fst (PartialsInterval_add now self t d r)) =
     (if r then dropWhile (\<lambda>p. fst p < now - keep_interval self) (partials self @ [(t, d)])
      else partials self @ [(t, d)])"
  by (simp add: PartialsInterval_add_def Let_def split_beta drop_old_dropWhile)

lemma add_points:
  "points (fst (PartialsInterval_add now self t d r)) =
     (if r then points self + d
            - weight_sum (takeWhile (\<lambda>p. fst p < now - keep_interval self) (partials self @ [(t, d)]))
      else points self + d)"
  by (simp add: PartialsInterval_add_def Let_def split_beta drop_old_points)

lemma add_keep_interval [simp]:
  "keep_interval (fst (PartialsInterval_add now self t d r)) = keep_interval self"
  by (simp add: PartialsInterval_add_def Let_def split_beta)

lemma add_additions [simp]:
  "additions (fst (PartialsInterval_add now self t d r)) = Suc (additions self)"
  by (simp add: PartialsInterval_add_def Let_def split_beta)

lemma add_returns [simp]:
  "snd (PartialsInterval_add now self t d r) = additions self"
  by (simp add: PartialsInterval_add_def Let_def split_beta)

lemma weight_sum_takeWhile_dropWhile:
  "weight_sum (takeWhile P ps) + weight_sum (dropWhile P ps) = weight_sum ps"
proof -
  have "weight_sum (takeWhile P ps @ dropWhile P ps) = weight_sum ps"
    by simp
  then show ?thesis
    by (simp only: weight_sum_simps)
qed

lemma add_keeps_sum:
  assumes "points self = weight_sum (partials self)"
  shows "points (fst (PartialsInterval_add now self t d r)) =
           weight_sum (partials (fst (PartialsInterval_add now self t d r)))"
proof (cases r)
  case True
  let ?P = "\<lambda>p::partial. fst p < now - keep_interval self"
  let ?ps = "partials self @ [(t, d)]"
  have "weight_sum (takeWhile ?P ?ps) + weight_sum (dropWhile ?P ?ps) = weight_sum ?ps"
    by (rule weight_sum_takeWhile_dropWhile)
  with assms True show ?thesis
    by (simp add: add_partials add_points)
next
  case False
  with assms show ?thesis
    by (simp add: add_partials add_points)
qed

lemma add_all_keeps_sum:
  "points self = weight_sum (partials self) \<Longrightarrow>
   points (fst (add_all self calls)) = weight_sum (partials (fst (add_all self calls)))"
proof (induction calls arbitrary: self)
  case Nil
  then show ?case by simp
next
  case (Cons c calls)
  obtain now t d r where c: "c = (now, t, d, r)"
    by (cases c) auto
  have "points (fst (PartialsInterval_add now self t d r)) =
          weight_sum (partials (fst (PartialsInterval_add now self t d r)))"
    using Cons.prems by (rule add_keeps_sum)
  from Cons.IH [OF this] show ?case
    by (simp add: c split_beta)
qed

lemma add_all_returns:
  "snd (add_all self calls) = [additions self ..< additions self + length calls]"
proof (induction calls arbitrary: self)
  case Nil
  then show ?case by simp
next
  case (Cons c calls)
  obtain now t d r where c: "c = (now, t, d, r)"
    by (cases c) auto
  have "snd (add_all self (c # calls)) =
          additions self # snd (add_all (fst (PartialsInterval_add now self t d r)) calls)"
    by (simp add: c split_beta)
  also have "\<dots> = additions self # [Suc (additions self) ..< Suc (additions self) + length calls]"
    by (simp only: Cons.IH add_additions)
  also have "\<dots> = [additions self ..< additions self + length (c # calls)]"
    by (simp add: upt_rec)
  finally show ?case .
qed

lemma chronological_dropWhile:
  "chronological ps \<Longrightarrow> chronological (dropWhile P ps)"
  unfolding chronological_def
  by (induction ps) auto

lemma dropWhile_old_recent:
  "chronological ps \<Longrightarrow> p \<in> set (dropWhile (\<lambda>q. fst q < c) ps) \<Longrightarrow> c \<le> fst p"
  unfolding chronological_def
  by (induction ps) (auto split: if_splits)

lemma chronological_snoc:
  "chronological (ps @ [(t, d)]) \<longleftrightarrow> chronological ps \<and> (\<forall>p\<in>set ps. fst p \<le> t)"
  unfolding chronological_def
  by (auto simp: sorted_append)

lemma add_chronological:
  assumes "chronological (partials self)" and "\<forall>p\<in>set (partials self). fst p \<le> t"
  shows "chronological (partials (fst (PartialsInterval_add now self t d r)))"
    and "\<forall>p\<in>set (partials (fst (PartialsInterval_add now self t d r))). fst p \<le> t"
proof -
  have snoc: "chronological (partials self @ [(t, d)])"
    using assms by (simp add: chronological_snoc)
  then show "chronological (partials (fst (PartialsInterval_add now self t d r)))"
    by (simp add: add_partials chronological_dropWhile)
  have "set (partials (fst (PartialsInterval_add now self t d r))) \<subseteq> set (partials self @ [(t, d)])"
    by (auto simp: add_partials dest: set_dropWhileD)
  moreover have "\<forall>p\<in>set (partials self @ [(t, d)]). fst p \<le> t"
    using assms(2) by simp
  ultimately show "\<forall>p\<in>set (partials (fst (PartialsInterval_add now self t d r))). fst p \<le> t"
    by blast
qed

lemma add_all_chronological:
  assumes "chronological (partials self)"
    and "\<forall>p\<in>set (partials self). \<forall>c\<in>set calls. fst p \<le> call_timestamp c"
    and "sorted (map call_timestamp calls)"
  shows "chronological (partials (fst (add_all self calls)))"
  using assms
proof (induction calls arbitrary: self)
  case Nil
  then show ?case by simp
next
  case (Cons c calls)
  obtain now t d r where c: "c = (now, t, d, r)"
    by (cases c) auto
  let ?s = "fst (PartialsInterval_add now self t d r)"
  have t: "call_timestamp c = t"
    by (simp add: c call_timestamp_def)
  have below: "\<forall>p\<in>set (partials self). fst p \<le> t"
    using Cons.prems(2) t by auto
  have 1: "chronological (partials ?s)"
    using Cons.prems(1) below by (rule add_chronological)
  have "\<forall>p\<in>set (partials ?s). fst p \<le> t"
    using Cons.prems(1) below by (rule add_chronological)
  moreover have "\<forall>c'\<in>set calls. t \<le> call_timestamp c'"
    using Cons.prems(3) t by auto
  ultimately have 2: "\<forall>p\<in>set (partials ?s). \<forall>c'\<in>set calls. fst p \<le> call_timestamp c'"
    by fastforce
  have 3: "sorted (map call_timestamp calls)"
    using Cons.prems(3) by simp
  from Cons.IH [OF 1 2 3] show ?case
    by (simp add: c split_beta)
qed

lemma add_all_append:
  "add_all self (xs @ ys) =
     (fst (add_all (fst (add_all self xs)) ys),
      snd (add_all self xs) @ snd (add_all (fst (add_all self xs)) ys))"
proof (induction xs arbitrary: self)
  case Nil
  then show ?case by simp
next
  case (Cons c xs)
  obtain now t d r where c: "c = (now, t, d, r)"
    by (cases c) auto
  show ?case
    by (simp add: c split_beta Cons.IH)
qed

lemma add_all_keep_interval [simp]:
  "keep_interval (fst (add_all self calls)) = keep_interval self"
proof (induction calls arbitrary: self)
  case Nil
  then show ?case by simp
next
  case (Cons c calls)
  obtain now t d r where c: "c = (now, t, d, r)"
    by (cases c) auto
  show ?case
    by (simp add: c split_beta Cons.IH)
qed

lemma init_fields [simp]:
  "partials (PartialsInterval_init k) = []"
  "points (PartialsInterval_init k) = 0"
  "additions (PartialsInterval_init k) = 0"
  "keep_interval (PartialsInterval_init k) = k"
  by (simp_all add: PartialsInterval_init_def)

text \<open>
  C3. On an object built by any sequence of \<open>add\<close> calls (with or without removal, any clock
  and any timestamps), \<open>points\<close> is the sum of the difficulties of the partials held; so
  an empty list has \<open>points = 0\<close>; and the removal loop leaves an empty list as it is.
\<close>

theorem points_is_sum_of_held_partials:
  "points (fst (add_all (PartialsInterval_init k) calls)) =
     weight_sum (partials (fst (add_all (PartialsInterval_init k) calls)))
   \<and> (partials (fst (add_all (PartialsInterval_init k) calls)) = [] \<longrightarrow>
        points (fst (add_all (PartialsInterval_init k) calls)) = 0)
   \<and> drop_old drop_time [] pts = ([], pts)"
proof -
  have "points (fst (add_all (PartialsInterval_init k) calls)) =
          weight_sum (partials (fst (add_all (PartialsInterval_init k) calls)))"
    by (rule add_all_keeps_sum) simp
  then show ?thesis
    by auto
qed

theorem points_is_sum_of_held_partials_witness:
  "partials (fst (add_all (PartialsInterval_init 100) [(1000, 0, 5, True)])) = []
   \<and> points (fst (add_all (PartialsInterval_init 100) [(1000, 0, 5, True)])) = 0
   \<and> points (fst (add_all (PartialsInterval_init 100) [(10, 0, 5, True), (20, 7, 3, False)])) =
       weight_sum [(0, 5), (7, 3)]"
  using points_is_sum_of_held_partials [of 100 "[(1000, 0, 5, True)]"]
    points_is_sum_of_held_partials [of 100 "[(10, 0, 5, True), (20, 7, 3, False)]"]
  by (simp add: PartialsInterval_add_def PartialsInterval_init_def)

text \<open>
  C4, as the specification states it: the first \<open>add\<close> on a fresh object returns 1. The
  counter is \<open>itertools.count()\<close>, which starts at 0, so the first call returns 0.
\<close>

theorem first_add_returns_1_counterexample:
  "snd (PartialsInterval_add 0 (PartialsInterval_init 86400) 0 1 True) \<noteq> 1"
  by (simp add: PartialsInterval_add_def PartialsInterval_init_def)

text \<open>
  C4, amended: the calls of \<open>add\<close> on a fresh object return 0, 1, 2, ... in this order,
  one more at each call; so the numbers strictly increase and the first is 0.
\<close>

theorem add_returns_count_from_0:
  "snd (add_all (PartialsInterval_init k) calls) = [0 ..< length calls]
   \<and> sorted_wrt (<) (snd (add_all (PartialsInterval_init k) calls))"
  by (simp add: add_all_returns)

text \<open>
  C10. With removal enabled, \<open>add\<close> does not promise to keep the partial it appends: when
  the list is in chronological order up to the new timestamp and the new timestamp is
  already below \<open>now - keep_interval\<close>, the loop removes every partial, the new one
  included. The list is then empty, and \<open>points\<close> has lost the difficulties of all the
  partials that were held.
\<close>

theorem add_can_remove_the_added_partial:
  assumes "\<forall>p\<in>set (partials self). fst p \<le> timestamp"
    and "timestamp < now - keep_interval self"
  shows "partials (fst (PartialsInterval_add now self timestamp difficulty True)) = []
    \<and> points (fst (PartialsInterval_add now self timestamp difficulty True)) =
        points self - weight_sum (partials self)"
proof -
  let ?P = "\<lambda>p::partial. fst p < now - keep_interval self"
  let ?ps = "partials self @ [(timestamp, difficulty)]"
  have all: "\<forall>p\<in>set ?ps. ?P p"
    using assms by auto
  then have "dropWhile ?P ?ps = []"
    by (simp only: dropWhile_eq_Nil_conv)
  moreover have "takeWhile ?P ?ps = ?ps"
    using all by (simp only: takeWhile_eq_all_conv)
  ultimately show ?thesis
    by (simp add: add_partials add_points)
qed

theorem add_can_remove_the_added_partial_witness:
  "list_all (\<lambda>p. fst p \<le> 1)
       (partials \<lparr>partials = [(0, 5)], points = 5, additions = 1, keep_interval = 100\<rparr>)
   \<and> (1::int) < 1000 - keep_interval \<lparr>partials = [(0, 5)], points = 5, additions = 1, keep_interval = 100\<rparr>
   \<and> partials (fst (PartialsInterval_add 1000
         \<lparr>partials = [(0, 5)], points = 5, additions = 1, keep_interval = 100\<rparr> 1 3 True)) = []
   \<and> points (fst (PartialsInterval_add 1000
         \<lparr>partials = [(0, 5)], points = 5, additions = 1, keep_interval = 100\<rparr> 1 3 True)) = 0
   \<and> points (fst (PartialsInterval_add 1000 (PartialsInterval_init 100) 1 3 True)) =
       points (PartialsInterval_init 100)"
  using add_can_remove_the_added_partial
      [of "\<lparr>partials = [(0, 5)], points = 5, additions = 1, keep_interval = 100\<rparr>" 1 1000 3]
    add_can_remove_the_added_partial [of "PartialsInterval_init 100" 1 1000 3]
  by simp

lemma add_all_last_recent:
  assumes "sorted (map call_timestamp (calls @ [(now, timestamp, difficulty, True)]))"
  shows "\<forall>p\<in>set (partials (fst (add_all (PartialsInterval_init k)
            (calls @ [(now, timestamp, difficulty, True)])))). now - k \<le> fst p"
proof -
  let ?before = "fst (add_all (PartialsInterval_init k) calls)"
  have "chronological (partials (fst (add_all (PartialsInterval_init k)
          (calls @ [(now, timestamp, difficulty, False)]))))"
    by (rule add_all_chronological)
      (use assms in \<open>simp_all add: chronological_def call_timestamp_def\<close>)
  then have "chronological (partials ?before @ [(timestamp, difficulty)])"
    by (simp add: add_all_append split_beta add_partials)
  then show ?thesis
    using dropWhile_old_recent by (auto simp: add_all_append split_beta add_partials)
qed

lemma recent_dropWhile:
  "c \<le> th \<Longrightarrow> recent th (dropWhile (\<lambda>p. fst p < c) ps) = recent th ps"
  by (induction ps) (auto simp: recent_def)

lemma recent_append [simp]:
  "recent th (ps @ qs) = recent th ps @ recent th qs"
  by (simp add: recent_def)

lemma recent_add:
  "(r \<longrightarrow> now - keep_interval self \<le> th) \<Longrightarrow>
   recent th (partials (fst (PartialsInterval_add now self t d r))) =
     recent th (partials self) @ recent th [(t, d)]"
  by (simp add: add_partials recent_dropWhile)

lemma recent_add_all:
  "\<forall>c\<in>set calls. call_remove c \<longrightarrow> call_now c - keep_interval self \<le> th \<Longrightarrow>
   recent th (partials (fst (add_all self calls))) =
     recent th (partials self) @ recent th (map call_partial calls)"
proof (induction calls arbitrary: self)
  case Nil
  then show ?case by (simp add: recent_def)
next
  case (Cons c calls)
  obtain now t d r where c: "c = (now, t, d, r)"
    by (cases c) auto
  let ?s = "fst (PartialsInterval_add now self t d r)"
  have 1: "r \<longrightarrow> now - keep_interval self \<le> th"
    using Cons.prems by (simp add: c call_remove_def call_now_def)
  have 2: "\<forall>c\<in>set calls. call_remove c \<longrightarrow> call_now c - keep_interval ?s \<le> th"
    using Cons.prems by simp
  have "recent th (partials (fst (add_all self (c # calls)))) =
      recent th (partials (fst (add_all ?s calls)))"
    by (simp add: c split_beta)
  also have "\<dots> = recent th (partials ?s) @ recent th (map call_partial calls)"
    using 2 by (rule Cons.IH)
  also have "\<dots> = recent th (partials self) @ recent th (map call_partial (c # calls))"
    using recent_add [OF 1, of t d] by (simp add: c call_partial_def recent_def)
  finally show ?case .
qed

text \<open>
  C1. After a sequence of \<open>add\<close> calls with non-decreasing timestamps on a fresh object, the
  last of them with removal enabled and reading the clock as \<open>now\<close>, \<open>points\<close> is the sum
  of the difficulties of the held partials whose timestamp is at least
  \<open>now - keep_interval\<close>. When no earlier removing call has read the clock later than
  \<open>now\<close>, the held partials are exactly the added partials with such a timestamp, in the
  order of their addition, and \<open>points\<close> is the sum of their difficulties: no partial of
  the window is lost and none outside it is counted.
\<close>

theorem points_after_removal:
  assumes "sorted (map call_timestamp (calls @ [(now, timestamp, difficulty, True)]))"
  shows "points (fst (add_all (PartialsInterval_init k) (calls @ [(now, timestamp, difficulty, True)]))) =
     weight_sum (filter (\<lambda>p. now - k \<le> fst p)
       (partials (fst (add_all (PartialsInterval_init k) (calls @ [(now, timestamp, difficulty, True)])))))
   \<and> ((\<forall>c\<in>set calls. call_remove c \<longrightarrow> call_now c \<le> now) \<longrightarrow>
        partials (fst (add_all (PartialsInterval_init k) (calls @ [(now, timestamp, difficulty, True)]))) =
          filter (\<lambda>p. now - k \<le> fst p) (map call_partial (calls @ [(now, timestamp, difficulty, True)]))
        \<and> points (fst (add_all (PartialsInterval_init k) (calls @ [(now, timestamp, difficulty, True)]))) =
          weight_sum (filter (\<lambda>p. now - k \<le> fst p)
            (map call_partial (calls @ [(now, timestamp, difficulty, True)]))))"
proof -
  let ?calls = "calls @ [(now, timestamp, difficulty, True)]"
  let ?after = "fst (add_all (PartialsInterval_init k) ?calls)"
  have "\<forall>p\<in>set (partials ?after). now - k \<le> fst p"
    using assms by (rule add_all_last_recent)
  then have held: "recent (now - k) (partials ?after) = partials ?after"
    by (simp only: recent_def filter_id_conv)
  have sum: "points ?after = weight_sum (partials ?after)"
    by (rule add_all_keeps_sum) simp
  have added: "partials ?after = recent (now - k) (map call_partial ?calls)"
    if "\<forall>c\<in>set calls. call_remove c \<longrightarrow> call_now c \<le> now"
  proof -
    have "\<forall>c\<in>set ?calls. call_remove c \<longrightarrow>
        call_now c - keep_interval (PartialsInterval_init k) \<le> now - k"
      using that by (auto simp: call_now_def)
    then have "recent (now - k) (partials ?after) =
        recent (now - k) (partials (PartialsInterval_init k)) @ recent (now - k) (map call_partial ?calls)"
      by (rule recent_add_all)
    with held show ?thesis
      by (simp add: recent_def)
  qed
  from held sum added show ?thesis
    by (auto simp: recent_def)
qed

theorem points_after_removal_witness:
  "sorted (map call_timestamp ([(10, 0, 10, True), (60, 50, 20, True)] @ [(150, 90, 5, True)]))
   \<and> points (fst (add_all (PartialsInterval_init 100)
        ([(10, 0, 10, True), (60, 50, 20, True)] @ [(150, 90, 5, True)]))) = 25
   \<and> partials (fst (add_all (PartialsInterval_init 100)
        ([(10, 0, 10, True), (60, 50, 20, True)] @ [(150, 90, 5, True)]))) = [(50, 20), (90, 5)]
   \<and> filter (\<lambda>p. 150 - 100 \<le> fst p)
        (map call_partial ([(10, 0, 10, True), (60, 50, 20, True)] @ [(150, 90, 5, True)])) =
       [(50, 20), (90, 5)]"
  using points_after_removal [of "[(10, 0, 10, True), (60, 50, 20, True)]" 150 90 5 100]
  by (simp add: call_timestamp_def call_remove_def call_now_def call_partial_def)

section \<open>Properties of the cache\<close>

lemma getitem_present:
  "map_of (entries self) k = Some v \<Longrightarrow> getitem self k = (self, v)"
  by (simp add: getitem_def)

lemma getitem_setitem [simp]:
  "getitem (setitem self k v) k = (setitem self k v, v)"
  by (simp add: getitem_def setitem_def update_conv')

lemma setitem_setitem [simp]:
  "setitem (setitem self k v) k w = setitem self k w"
  by (simp add: setitem_def)

lemma setitem_fields [simp]:
  "all (setitem self k v) = all self"
  "cache_keep_interval (setitem self k v) = cache_keep_interval self"
  "cache_config (setitem self k v) = cache_config self"
  "cache_pool_config (setitem self k v) = cache_pool_config self"
  "entries (setitem self k v) = AList.update k v (entries self)"
  by (simp_all add: setitem_def)

lemma add_both_eq:
  "add_both now1 now2 self k t d =
     ((setitem self k (fst (PartialsInterval_add now1 (interval_of self k) t d True)))
        \<lparr>all := fst (PartialsInterval_add now2 (all self) t d True)\<rparr>,
      additions (interval_of self k))"
proof (cases "map_of (entries self) k")
  case None
  then have "k \<notin> fst ` set (entries self)"
    by (simp add: map_of_eq_None_iff)
  with None show ?thesis
    by (simp add: add_both_def interval_of_def Let_def split_beta)
next
  case (Some v)
  then have "k \<in> fst ` set (entries self)"
    by (metis map_of_eq_None_iff option.distinct(1))
  with Some show ?thesis
    by (simp add: add_both_def interval_of_def Let_def split_beta getitem_present)
qed

lemma report_cache:
  "map_of (entries self) k = Some v \<Longrightarrow> fst (fst (report est self s k t)) = self"
  by (simp add: report_def getitem_present Let_def split: sum.splits)

lemma report_added_partials:
  "added_partials (snd (fst (report est self s k t))) = added_partials s"
  by (simp add: report_def Let_def split_beta store_update_estimated_size_and_pplns_def
      split: sum.splits)

lemma add_both_present:
  "map_of (entries (fst (add_both now1 now2 self k t d))) k =
     Some (fst (PartialsInterval_add now1 (interval_of self k) t d True))"
  by (simp add: add_both_eq update_conv')

lemma PartialsCache_add_cache:
  "fst (fst (PartialsCache_add est now1 now2 (self, s) k t d)) = fst (add_both now1 now2 self k t d)"
  by (simp add: PartialsCache_add_def split_beta Let_def report_cache [OF add_both_present])

lemma PartialsCache_add_added_partials:
  "added_partials (snd (fst (PartialsCache_add est now1 now2 (self, s) k t d))) = added_partials s"
  by (simp add: PartialsCache_add_def split_beta Let_def report_added_partials)

lemma add_both_all:
  "all (fst (add_both now1 now2 self k t d)) = fst (PartialsInterval_add now2 (all self) t d True)"
  by (simp add: add_both_eq)

lemma interval_of_add_both:
  "interval_of (fst (add_both now1 now2 self k t d)) k' =
     (if k' = k then fst (PartialsInterval_add now1 (interval_of self k) t d True)
      else interval_of self k')"
  by (simp add: add_both_eq interval_of_def update_conv' split: option.split)

lemma interval_of_init [simp]:
  "interval_of (PartialsCache_init cfg pcfg keep) k = PartialsInterval_init keep"
  by (simp add: interval_of_def PartialsCache_init_def)

lemma cache_add_all_snoc:
  "cache_add_all est state (calls @ [(now1, now2, k, t, d)]) =
     fst (PartialsCache_add est now1 now2 (cache_add_all est state calls) k t d)"
proof (induction calls arbitrary: state)
  case Nil
  then show ?case by simp
next
  case (Cons c calls)
  obtain a b k' t' d' where c: "c = (a, b, k', t', d')"
    by (cases c) auto
  show ?case by (simp add: c Cons.IH)
qed

lemma PartialsCache_add_cache':
  "fst (fst (PartialsCache_add est now1 now2 state k t d)) = fst (add_both now1 now2 (fst state) k t d)"
  using PartialsCache_add_cache [of est now1 now2 "fst state" "snd state" k t d] by simp

lemma additions_counts_calls:
  "additions (interval_of (fst (cache_add_all est (PartialsCache_init cfg pcfg keep, s) calls)) k) =
     length (filter (\<lambda>c. call_key c = k) calls)"
proof (induction calls rule: rev_induct)
  case Nil
  then show ?case by simp
next
  case (snoc c calls)
  obtain a b k' t' d' where c: "c = (a, b, k', t', d')"
    by (cases c) auto
  show ?case
    using snoc.IH
    by (auto simp: c cache_add_all_snoc PartialsCache_add_cache' interval_of_add_both call_key_def)
qed

lemma report_store:
  "snd (report est self s k t) = Inr () \<Longrightarrow>
     \<exists>es pts sh. updated_sizes (snd (fst (report est self s k t))) = updated_sizes s @ [(k, es, pts, sh)]"
  by (auto simp: report_def Let_def split_beta store_update_estimated_size_and_pplns_def
      split: sum.splits)

lemma report_all_zero:
  "points (all (fst (getitem self k))) = 0 \<Longrightarrow> snd (report est self s k t) \<noteq> Inr ()"
  by (auto simp: report_def Let_def split_beta decimal_div_def split: sum.splits)

lemmas run_simps =
  PartialsCache_init_def PartialsCache_add_def add_both_eq interval_of_def report_def getitem_def
  setitem_def PartialsInterval_add_def PartialsInterval_init_def Let_def split_beta
  empty_store_def mainnet_def day_config_def store_add_partial_def
  estimated_size_exact_def trunc_div_def decimal_div_def report_points_def
  store_update_estimated_size_and_pplns_def

text \<open>
  C5, as the specification states it: the report is made on every 5th accepted partial of
  a participant. The counter starts at 0, so the first partial of a participant is
  reported, and the fifth (whose number is 4) is not: after five partials the store has
  received the one report it had received after four.
\<close>

theorem reports_on_5th_event_counterexample:
  "updated_sizes (snd (cache_add_all estimated_size_exact
      (PartialsCache_init mainnet day_config 86400, empty_store) (take 1 five_calls))) \<noteq> []
   \<and> updated_sizes (snd (cache_add_all estimated_size_exact
      (PartialsCache_init mainnet day_config 86400, empty_store) five_calls)) =
     updated_sizes (snd (cache_add_all estimated_size_exact
      (PartialsCache_init mainnet day_config 86400, empty_store) (take 4 five_calls)))"
  by (simp add: five_calls_def run_simps)

lemma interval_of_setitem:
  "interval_of (setitem self k v) k' = (if k' = k then v else interval_of self k')"
  by (simp add: interval_of_def update_conv' split: option.split)

lemma interval_of_getitem:
  "interval_of (fst (getitem self k)) k' = interval_of self k'"
  by (auto simp: getitem_def interval_of_def Let_def update_conv' split: option.split)

lemma getitem_snd:
  "snd (getitem self k) = interval_of self k"
  by (simp add: getitem_def interval_of_def Let_def split: option.split)

lemma getitem_all [simp]:
  "all (fst (getitem self k)) = all self"
  "cache_keep_interval (fst (getitem self k)) = cache_keep_interval self"
  by (simp_all add: getitem_def Let_def split: option.split)

lemma additions_load_rows:
  "additions (interval_of (load_rows c rows) k) =
     additions (interval_of c k) + length (filter (\<lambda>r. fst r = k) rows)"
proof (induction rows arbitrary: c)
  case Nil
  then show ?case by simp
next
  case (Cons r rows)
  obtain lid t d where r: "r = (lid, t, d)"
    by (cases r) auto
  let ?c2 = "setitem (fst (getitem c lid)) lid (fst (PartialsInterval_add 0 (snd (getitem c lid)) t d False))"
  let ?c3 = "?c2\<lparr>all := fst (PartialsInterval_add 0 (all ?c2) t d False)\<rparr>"
  have step: "load_rows c (r # rows) = load_rows ?c3 rows"
    by (simp add: r split_beta Let_def)
  have "interval_of ?c3 k = interval_of ?c2 k"
    by (simp add: interval_of_def split: option.split)
  then have c3: "additions (interval_of ?c3 k) =
      additions (interval_of c k) + (if lid = k then 1 else 0)"
    by (auto simp: interval_of_setitem interval_of_getitem getitem_snd)
  have "additions (interval_of (load_rows c (r # rows)) k) =
      additions (interval_of ?c3 k) + length (filter (\<lambda>r. fst r = k) rows)"
    by (simp only: step Cons.IH)
  also have "\<dots> = additions (interval_of c k) + length (filter (\<lambda>r. fst r = k) (r # rows))"
    using c3 by (simp add: r)
  finally show ?case .
qed

text \<open>
  C5, amended: in every state of the cache, the number that the participant's \<open>add\<close>
  returns is the counter of the participant's object (0 for a participant not yet in the
  cache), and the call advances it by one. When it is not a multiple of 5 the call returns
  and the store is not called. When it is a multiple of 5 and the call returns, the store
  has received exactly one more report, for this participant. The counter is the number
  of earlier adds on the object: after calls of \<open>PartialsCache.add\<close> alone on a fresh cache
  it is the number of earlier calls for the participant, so that the reports fall on its
  1st, 6th, 11th, ... partial; each row that \<open>load_from_store\<close> replays for the
  participant advances it by one as well.
\<close>

theorem reports_on_counter_multiple_of_5:
  "snd (add_both now1 now2 self k t d) = additions (interval_of self k)
   \<and> additions (interval_of (fst (fst (PartialsCache_add est now1 now2 (self, s) k t d))) k) =
       Suc (additions (interval_of self k))
   \<and> (additions (interval_of self k) mod 5 \<noteq> 0 \<longrightarrow>
        snd (PartialsCache_add est now1 now2 (self, s) k t d) = Inr ()
        \<and> snd (fst (PartialsCache_add est now1 now2 (self, s) k t d)) = s)
   \<and> (additions (interval_of self k) mod 5 = 0
        \<and> snd (PartialsCache_add est now1 now2 (self, s) k t d) = Inr () \<longrightarrow>
        (\<exists>estimated_size pts share_pplns.
           updated_sizes (snd (fst (PartialsCache_add est now1 now2 (self, s) k t d))) =
           updated_sizes s @ [(k, estimated_size, pts, share_pplns)]))
   \<and> additions (interval_of (fst (cache_add_all est (PartialsCache_init cfg pcfg keep, s0) calls)) k) =
       length (filter (\<lambda>c. call_key c = k) calls)
   \<and> additions (interval_of (load_rows self rows) k) =
       additions (interval_of self k) + length (filter (\<lambda>r. fst r = k) rows)"
proof -
  let ?m = "additions (interval_of self k)"
  have n: "snd (add_both now1 now2 self k t d) = ?m"
    by (simp add: add_both_eq)
  have eq: "PartialsCache_add est now1 now2 (self, s) k t d =
      (if ?m mod 5 = 0 then report est (fst (add_both now1 now2 self k t d)) s k t
       else ((fst (add_both now1 now2 self k t d), s), Inr ()))"
    using n by (simp add: PartialsCache_add_def split_beta Let_def)
  have suc: "additions (interval_of (fst (fst (PartialsCache_add est now1 now2 (self, s) k t d))) k) = Suc ?m"
    by (simp add: PartialsCache_add_cache interval_of_add_both)
  have 1: "?m mod 5 \<noteq> 0 \<longrightarrow>
        snd (PartialsCache_add est now1 now2 (self, s) k t d) = Inr ()
        \<and> snd (fst (PartialsCache_add est now1 now2 (self, s) k t d)) = s"
    by (simp add: eq)
  have 2: "?m mod 5 = 0 \<and> snd (PartialsCache_add est now1 now2 (self, s) k t d) = Inr () \<longrightarrow>
        (\<exists>estimated_size pts share_pplns.
           updated_sizes (snd (fst (PartialsCache_add est now1 now2 (self, s) k t d))) =
           updated_sizes s @ [(k, estimated_size, pts, share_pplns)])"
    using report_store [of est "fst (add_both now1 now2 self k t d)" s k t]
    by (simp add: eq)
  from n suc 1 2 show ?thesis
    by (simp only: additions_counts_calls additions_load_rows simp_thms)
qed

theorem reports_on_counter_multiple_of_5_witness:
  "snd (add_both 5 5 (fst (cache_add_all estimated_size_exact
          (PartialsCache_init mainnet day_config 86400, empty_store) (take 4 five_calls))) ''aa'' 5 5) = 4
   \<and> snd (PartialsCache_add estimated_size_exact 5 5
          (cache_add_all estimated_size_exact
             (PartialsCache_init mainnet day_config 86400, empty_store) (take 4 five_calls)) ''aa'' 5 5) = Inr ()
   \<and> snd (fst (PartialsCache_add estimated_size_exact 5 5
          (cache_add_all estimated_size_exact
             (PartialsCache_init mainnet day_config 86400, empty_store) (take 4 five_calls)) ''aa'' 5 5)) =
       snd (cache_add_all estimated_size_exact
             (PartialsCache_init mainnet day_config 86400, empty_store) (take 4 five_calls))
   \<and> (\<exists>estimated_size pts share_pplns.
         updated_sizes (snd (fst (PartialsCache_add estimated_size_exact 1 1
            (PartialsCache_init mainnet day_config 86400, empty_store) ''aa'' 1 5))) =
         updated_sizes empty_store @ [(''aa'', estimated_size, pts, share_pplns)])"
proof -
  let ?st = "cache_add_all estimated_size_exact
      (PartialsCache_init mainnet day_config 86400, empty_store) (take 4 five_calls)"
  have "additions (interval_of (fst ?st) ''aa'') =
      length (filter (\<lambda>c. call_key c = ''aa'') (take 4 five_calls))"
    by (rule additions_counts_calls)
  then have four: "additions (interval_of (fst ?st) ''aa'') = 4"
    by (simp add: five_calls_def call_key_def)
  have ok: "snd (PartialsCache_add estimated_size_exact 1 1
      (PartialsCache_init mainnet day_config 86400, empty_store) ''aa'' 1 5) = Inr ()"
    by (simp add: run_simps)
  show ?thesis
    using reports_on_counter_multiple_of_5
        [of 5 5 "fst ?st" "''aa''" 5 5 estimated_size_exact "snd ?st"]
      reports_on_counter_multiple_of_5
        [of 1 1 "PartialsCache_init mainnet day_config 86400" "''aa''" 1 5 estimated_size_exact empty_store]
      four ok
    by simp
qed

text \<open>
  C6. The specification asks that \<open>add\<close> does not raise when the report is computed
  while \<open>all.points\<close> is zero. A first partial whose timestamp is already older than
  \<open>now - keep_interval\<close> is removed from both sums at once; its number is 0, so the report
  is computed, and line 91 divides by \<open>all.points = 0\<close>: the call raises, whatever the
  float computation of line 87 gives, and the exception leaves \<open>add_partial\<close> too.
\<close>

theorem add_raises_when_all_points_zero:
  "snd (PartialsCache_add est 100000 100000
          (PartialsCache_init mainnet day_config 86400, empty_store) (hex farmer) 0 1) \<noteq> Inr ()
   \<and> snd (PartialsCache_add estimated_size_exact 100000 100000
          (PartialsCache_init mainnet day_config 86400, empty_store) (hex farmer) 0 1) = Inl InvalidOperation
   \<and> snd (Partials_add_partial estimated_size_exact 100000 100000
          (Partials_init empty_store mainnet day_config) farmer 0 1 None) = Inl InvalidOperation"
proof -
  have "snd (report est (fst (add_both 100000 100000 (PartialsCache_init mainnet day_config 86400) (hex farmer) 0 1))
     empty_store (hex farmer) 0) \<noteq> Inr ()"
    by (rule report_all_zero) (simp add: run_simps)
  then have 1: "snd (PartialsCache_add est 100000 100000
          (PartialsCache_init mainnet day_config 86400, empty_store) (hex farmer) 0 1) \<noteq> Inr ()"
    by (simp add: PartialsCache_add_def split_beta Let_def add_both_eq)
  have 2: "snd (PartialsCache_add estimated_size_exact 100000 100000
          (PartialsCache_init mainnet day_config 86400, empty_store) (hex farmer) 0 1) = Inl InvalidOperation"
    by (simp add: run_simps)
  have 3: "snd (Partials_add_partial estimated_size_exact 100000 100000
          (Partials_init empty_store mainnet day_config) farmer 0 1 None) = Inl InvalidOperation"
    by (simp add: Partials_add_partial_def Partials_init_def run_simps)
  from 1 2 3 show ?thesis by simp
qed
















section \<open>Properties of the tracker\<close>

text \<open>
  C9. \<open>add_partial\<close> records the partial in the store, with its error if it has one. Without
  an error the result is that of \<open>PartialsCache.add\<close> on the cache, called after the
  store; with an error the cache is unchanged, no report is made and the call returns.
  The cache changes exactly when there is no error.
\<close>

theorem add_partial_stores_then_forwards:
  "added_partials (store (fst (Partials_add_partial est now1 now2 self launcher_id timestamp difficulty err))) =
     added_partials (store self) @ [(launcher_id, timestamp, difficulty, err)]
   \<and> (err = None \<longrightarrow>
        Partials_add_partial est now1 now2 self launcher_id timestamp difficulty err =
          (let (cs, r) = PartialsCache_add est now1 now2
                 (cache self, store_add_partial (store self) launcher_id timestamp difficulty None)
                 (hex launcher_id) timestamp difficulty
           in (self\<lparr>store := snd cs, cache := fst cs\<rparr>, r)))
   \<and> (err \<noteq> None \<longrightarrow>
        cache (fst (Partials_add_partial est now1 now2 self launcher_id timestamp difficulty err)) = cache self
        \<and> updated_sizes (store (fst (Partials_add_partial est now1 now2 self launcher_id timestamp difficulty err))) =
            updated_sizes (store self)
        \<and> snd (Partials_add_partial est now1 now2 self launcher_id timestamp difficulty err) = Inr ())
   \<and> (cache (fst (Partials_add_partial est now1 now2 self launcher_id timestamp difficulty err)) \<noteq> cache self
        \<longleftrightarrow> err = None)"
proof (cases err)
  case None
  let ?s = "store_add_partial (store self) launcher_id timestamp difficulty None"
  let ?r = "PartialsCache_add est now1 now2 (cache self, ?s) (hex launcher_id) timestamp difficulty"
  have eq: "Partials_add_partial est now1 now2 self launcher_id timestamp difficulty None =
      (self\<lparr>store := snd (fst ?r), cache := fst (fst ?r)\<rparr>, snd ?r)"
    by (simp add: Partials_add_partial_def Let_def split_beta)
  have "added_partials (snd (fst ?r)) = added_partials ?s"
    by (rule PartialsCache_add_added_partials)
  then have 1: "added_partials (snd (fst ?r)) =
      added_partials (store self) @ [(launcher_id, timestamp, difficulty, None)]"
    by (simp add: store_add_partial_def)
  have "additions (all (fst (fst ?r))) = Suc (additions (all (cache self)))"
    by (simp add: PartialsCache_add_cache add_both_all)
  then have 2: "fst (fst ?r) \<noteq> cache self"
    by auto
  from 1 2 show ?thesis
    by (simp add: None eq split_beta)
next
  case (Some e)
  then show ?thesis
    by (simp add: Partials_add_partial_def store_add_partial_def)
qed

theorem add_partial_stores_then_forwards_witness:
  "added_partials (store (fst (Partials_add_partial estimated_size_exact 10 10
       (Partials_init empty_store mainnet day_config) farmer 10 5 (Some ''too late'')))) =
     [(farmer, 10, 5, Some ''too late'')]
   \<and> cache (fst (Partials_add_partial estimated_size_exact 10 10
       (Partials_init empty_store mainnet day_config) farmer 10 5 (Some ''too late''))) =
     cache (Partials_init empty_store mainnet day_config)
   \<and> added_partials (store (fst (Partials_add_partial estimated_size_exact 10 10
       (Partials_init empty_store mainnet day_config) farmer 10 5 None))) =
     [(farmer, 10, 5, None)]
   \<and> cache (fst (Partials_add_partial estimated_size_exact 10 10
       (Partials_init empty_store mainnet day_config) farmer 10 5 None)) \<noteq>
     cache (Partials_init empty_store mainnet day_config)
   \<and> points (all (cache (fst (Partials_add_partial estimated_size_exact 10 10
       (Partials_init empty_store mainnet day_config) farmer 10 5 None)))) = 5"
proof -
  let ?fresh = "Partials_init empty_store mainnet day_config"
  have 0: "added_partials (store ?fresh) = []"
    by (simp add: Partials_init_def empty_store_def)
  have 1: "points (all (cache (fst (Partials_add_partial estimated_size_exact 10 10
       ?fresh farmer 10 5 None)))) = 5"
    by (simp add: Partials_add_partial_def Partials_init_def run_simps)
  note err = add_partial_stores_then_forwards
      [of estimated_size_exact 10 10 ?fresh farmer 10 5 "Some ''too late''"]
  note ok = add_partial_stores_then_forwards
      [of estimated_size_exact 10 10 ?fresh farmer 10 5 None]
  have a: "added_partials (store (fst (Partials_add_partial estimated_size_exact 10 10
       ?fresh farmer 10 5 (Some ''too late'')))) = [(farmer, 10, 5, Some ''too late'')]"
    using err [THEN conjunct1] 0 by simp
  have b: "cache (fst (Partials_add_partial estimated_size_exact 10 10
       ?fresh farmer 10 5 (Some ''too late''))) = cache ?fresh"
    using err [THEN conjunct2, THEN conjunct2, THEN conjunct1] by simp
  have c: "added_partials (store (fst (Partials_add_partial estimated_size_exact 10 10
       ?fresh farmer 10 5 None))) = [(farmer, 10, 5, None)]"
    using ok [THEN conjunct1] 0 by simp
  have d: "cache (fst (Partials_add_partial estimated_size_exact 10 10
       ?fresh farmer 10 5 None)) \<noteq> cache ?fresh"
    using ok [THEN conjunct2, THEN conjunct2, THEN conjunct2] by simp
  from a b c d 1 show ?thesis
    by blast
qed

lemma three_partials_cache:
  "entries (cache three_partials) =
     [(hex farmer, \<lparr>partials = [(1, 5), (2, 7), (3, 9)], points = 21, additions = 3, keep_interval = 86400\<rparr>)]"
  by (simp add: three_partials_def Partials_add_partial_def Partials_init_def PartialsCache_init_def
      PartialsCache_add_def add_both_eq interval_of_def report_def getitem_def
      PartialsInterval_add_def PartialsInterval_init_def Let_def split_beta
      empty_store_def mainnet_def day_config_def store_add_partial_def
      estimated_size_exact_def trunc_div_def decimal_div_def report_points_def
      store_update_estimated_size_and_pplns_def)

text \<open>
  The scenario of the specification: with the partials (1,5), (2,7), (3,9) a count of 2
  gives the last two, newest first. The same holds for every positive count, on entries
  whose values fit \<open>uint64\<close>: the result is the first \<open>count\<close> partials of the reversed
  list.
\<close>

lemma get_recent_partials_count_2:
  "snd (Partials_get_recent_partials three_partials farmer 2) = Inr [(3, 9), (2, 7)]"
  by (simp add: Partials_get_recent_partials_def getitem_def three_partials_cache
      slice_from_def uint64_def)

lemma uint64_pairs_fit:
  "\<forall>p\<in>set ps. fits_uint64 (fst p) \<and> fits_uint64 (snd p) \<Longrightarrow> uint64_pairs ps = Inr ps"
  by (induction ps) (auto simp: uint64_def fits_uint64_def)

lemma slice_from_last:
  "0 < n \<Longrightarrow> rev (slice_from (- n) ps) = take (nat n) (rev ps)"
  by (auto simp: slice_from_def take_rev Let_def max_def nat_diff_distrib' intro!: arg_cong2 [where f = drop])

lemma get_recent_partials_positive:
  assumes "0 < n" and "map_of (entries (cache self)) (hex launcher_id) = Some interval"
    and "\<forall>p\<in>set (partials interval). fits_uint64 (fst p) \<and> fits_uint64 (snd p)"
  shows "Partials_get_recent_partials self launcher_id n =
           (self, Inr (take (nat n) (rev (partials interval))))"
proof -
  have "\<forall>p\<in>set (take (nat n) (rev (partials interval))). fits_uint64 (fst p) \<and> fits_uint64 (snd p)"
  proof
    fix p
    assume "p \<in> set (take (nat n) (rev (partials interval)))"
    then have "p \<in> set (partials interval)"
      by (auto dest: in_set_takeD)
    with assms(3) show "fits_uint64 (fst p) \<and> fits_uint64 (snd p)"
      by blast
  qed
  then have "uint64_pairs (take (nat n) (rev (partials interval))) =
      Inr (take (nat n) (rev (partials interval)))"
    by (rule uint64_pairs_fit)
  then show ?thesis
    using assms(1,2)
    by (simp add: Partials_get_recent_partials_def getitem_present slice_from_last)
qed

text \<open>
  C7. The specification asks for at most \<open>count\<close> partials for every count. For a count
  of 0 the slice \<open>partials[-0:]\<close> is the whole list, and the call returns all three
  partials where at most 0 are asked for.
\<close>

theorem get_recent_partials_count_0:
  "snd (Partials_get_recent_partials three_partials farmer 0) = Inr [(3, 9), (2, 7), (1, 5)]"
  by (simp add: Partials_get_recent_partials_def getitem_def three_partials_cache
      slice_from_def uint64_def)

lemma payout_loop_eq:
  assumes "\<forall>e\<in>set es. paid ph e \<longrightarrow> fits_uint64 (points (snd e))"
  shows "payout_loop ph es acc logged =
     Inr (acc @ map (\<lambda>e. (points (snd e), the (dict_get ph (fst e)))) (filter (paid ph) es),
          logged @ map (\<lambda>e. (fst e, points (snd e))) (filter (unpaid ph) es))"
  using assms
proof (induction es arbitrary: acc logged)
  case Nil
  then show ?case by simp
next
  case (Cons e es)
  obtain lid iv where e: "e = (lid, iv)" by (cases e)
  have IH: "\<And>acc logged. payout_loop ph es acc logged =
     Inr (acc @ map (\<lambda>e. (points (snd e), the (dict_get ph (fst e)))) (filter (paid ph) es),
          logged @ map (\<lambda>e. (fst e, points (snd e))) (filter (unpaid ph) es))"
    using Cons by simp
  show ?case
  proof (cases "points iv = 0")
    case True
    then have "\<not> paid ph e" "\<not> unpaid ph e"
      by (simp_all add: e paid_def unpaid_def)
    with True show ?thesis by (simp add: e IH)
  next
    case nz: False
    show ?thesis
    proof (cases "dict_get ph lid")
      case None
      with nz have "\<not> paid ph e" "unpaid ph e"
        by (simp_all add: e paid_def unpaid_def)
      with nz None show ?thesis by (simp add: e IH)
    next
      case (Some h)
      with nz have p: "paid ph e" "\<not> unpaid ph e"
        by (simp_all add: e paid_def unpaid_def)
      with Cons.prems have "fits_uint64 (points iv)" by (simp add: e)
      then have "uint64 (points iv) = Inr (points iv)"
        by (simp add: uint64_def fits_uint64_def)
      with nz Some p show ?thesis by (simp add: e IH)
    qed
  qed
qed

lemma payout_loop_raises:
  assumes "\<exists>e\<in>set es. paid ph e \<and> \<not> fits_uint64 (points (snd e))"
  shows "payout_loop ph es acc logged = Inl ValueError"
  using assms
proof (induction es arbitrary: acc logged)
  case Nil
  then show ?case by simp
next
  case (Cons e es)
  obtain lid iv where e: "e = (lid, iv)" by (cases e)
  show ?case
  proof (cases "paid ph e \<and> \<not> fits_uint64 (points iv)")
    case True
    then have "points iv \<noteq> 0" and "dict_get ph lid \<noteq> None"
      and "uint64 (points iv) = Inl ValueError"
      by (auto simp: e paid_def uint64_def fits_uint64_def)
    then show ?thesis
      by (auto simp: e)
  next
    case False
    with Cons.prems have "\<exists>e\<in>set es. paid ph e \<and> \<not> fits_uint64 (points (snd e))"
      by (auto simp: e)
    then have IH: "\<And>acc logged. payout_loop ph es acc logged = Inl ValueError"
      by (rule Cons.IH)
    show ?thesis
      by (simp add: e IH uint64_def split: option.split)
  qed
qed

lemma two_large_cache:
  "entries (cache two_large) =
     [(hex farmer, \<lparr>partials = [(10, 9223372036854775808), (10, 9223372036854775808)],
        points = 18446744073709551616, additions = 2, keep_interval = 86400\<rparr>)]"
  by (simp add: two_large_def Partials_add_partial_def Partials_init_def run_simps)

text \<open>
  C8, as the specification states it: a pair is emitted for every participant with points
  other than zero and known payout instructions. Two accepted partials of difficulty
  \<open>2^63\<close> give the farmer \<open>2^64\<close> points; \<open>uint64(points)\<close> of line 161 raises, and the
  pass returns neither a pair for this farmer nor the total.
\<close>

theorem payout_pairs_counterexample:
  "snd (Partials_add_partial estimated_size_exact 10 10
          (Partials_init empty_store mainnet day_config) farmer 10 9223372036854775808 None) = Inr ()
   \<and> snd (Partials_add_partial estimated_size_exact 10 10
          (fst (Partials_add_partial estimated_size_exact 10 10
             (Partials_init empty_store mainnet day_config) farmer 10 9223372036854775808 None))
          farmer 10 9223372036854775808 None) = Inr ()
   \<and> Partials_get_farmer_points_and_payout_instructions two_large
        [hex farmer \<mapsto> Some ''xch1a''] = Inl ValueError"
  by (simp add: Partials_get_farmer_points_and_payout_instructions_def two_large_cache
      dict_get_def uint64_def)
    (simp add: Partials_add_partial_def Partials_init_def run_simps)

text \<open>
  C8, amended: when the points of the entries to be paid fit \<open>uint64\<close>, the payout pass
  returns one pair for each entry with points other than zero and known payout
  instructions, in the order of the cache, together with \<open>all.points\<close>; the entries with
  zero points give nothing, and the entries with points and no payout instructions are
  logged and the pass goes on. When the points of an entry to be paid do not fit
  \<open>uint64\<close>, the pass raises \<open>ValueError\<close>.
\<close>

theorem payout_pairs:
  "((\<forall>e\<in>set (entries (cache self)). paid ph e \<longrightarrow> fits_uint64 (points (snd e))) \<longrightarrow>
      Partials_get_farmer_points_and_payout_instructions self ph =
        Inr ((map (\<lambda>e. (points (snd e), the (dict_get ph (fst e))))
                (filter (paid ph) (entries (cache self))),
              points (all (cache self))),
             map (\<lambda>e. (fst e, points (snd e))) (filter (unpaid ph) (entries (cache self)))))
   \<and> ((\<exists>e\<in>set (entries (cache self)). paid ph e \<and> \<not> fits_uint64 (points (snd e))) \<longrightarrow>
      Partials_get_farmer_points_and_payout_instructions self ph = Inl ValueError)"
  by (simp add: Partials_get_farmer_points_and_payout_instructions_def payout_loop_eq
      payout_loop_raises)

theorem payout_pairs_witness:
  "Partials_get_farmer_points_and_payout_instructions
     \<lparr>store = \<lparr>added_partials = [], updated_sizes = []\<rparr>, cache = example_cache\<rparr>
     [''aa'' \<mapsto> Some ''xch1a'', ''bb'' \<mapsto> Some ''xch1b'', ''dd'' \<mapsto> Some ''xch1d''] =
   Inr (([(5, ''xch1a''), (9, ''xch1d'')], 21), [(''cc'', 7)])
   \<and> Partials_get_farmer_points_and_payout_instructions two_large
        [hex farmer \<mapsto> Some ''xch1a''] = Inl ValueError"
  using payout_pairs [of "\<lparr>store = \<lparr>added_partials = [], updated_sizes = []\<rparr>, cache = example_cache\<rparr>"
      "[''aa'' \<mapsto> Some ''xch1a'', ''bb'' \<mapsto> Some ''xch1b'', ''dd'' \<mapsto> Some ''xch1d'']"]
    payout_pairs [of two_large "[hex farmer \<mapsto> Some ''xch1a'']"]
  by (simp add: example_cache_def two_large_cache paid_def unpaid_def dict_get_def fits_uint64_def)

end
